theory Spec2Isabelle
  imports Main "HOL-Library.AList"
begin

section \<open>JavaScript values\<close>

text \<open>
  The library stores and passes arbitrary JavaScript values. The embedding keeps the
  kinds of value the two classes distinguish: the two empty values, primitives,
  functions, arrays and plain objects.

  \<^item> A function is known only by its identity (\<open>Function n\<close>): the library never looks
    inside a callback, it compares callbacks by reference and calls them.
  \<^item> \<open>DoneFn key\<close> is the closure that \<open>buildDoneFunction(key)\<close> returns; two
    closures built for the same key are not told apart.
  \<^item> A plain object is the list of its own enumerable properties, in the order in which
    \<open>for (const key in obj)\<close> enumerates them. Keys of one object are distinct.
  \<^item> The state is a tree: an object is identified by its position in the tree, two
    positions never hold the same object, and no object contains itself.
  \<^item> Numbers are opaque leaves; integers stand for them.
  \<^item> Property lookup in a state or patch object sees own properties. The names such an
    object inherits from \<open>Object.prototype\<close> (\<open>toString\<close>, \<open>__proto__\<close>, ...) are
    outside the model of the store, except \<open>constructor\<close>, which \<open>setState\<close> reads by
    name. The actions object is looked up by names the caller chooses, and there
    the inherited names are part of the model.
\<close>

datatype val =
    Undefined
  | Null
  | Bool bool
  | Num int
  | Str string
  | Function nat
  | DoneFn string
  | Arr "val list"
  | Obj "(string \<times> val) list"

text \<open>The \<open>typeof\<close> operator.\<close>

fun typeof :: "val \<Rightarrow> string" where
  "typeof Undefined = ''undefined''"
| "typeof Null = ''object''"
| "typeof (Bool b) = ''boolean''"
| "typeof (Num n) = ''number''"
| "typeof (Str s) = ''string''"
| "typeof (Function f) = ''function''"
| "typeof (DoneFn k) = ''function''"
| "typeof (Arr xs) = ''object''"
| "typeof (Obj ps) = ''object''"

text \<open>
  \<open>v.constructor\<close> for a value whose \<open>typeof\<close> is \<open>object\<close> and that is not
  \<open>null\<close>: the name of the constructor function found. An own property called
  \<open>constructor\<close> shadows the inherited one, and its value is never the function
  \<open>Object\<close>.
\<close>

fun constructor_name :: "val \<Rightarrow> string" where
  "constructor_name (Obj ps) =
     (case map_of ps ''constructor'' of None \<Rightarrow> ''Object'' | Some v \<Rightarrow> ''own property'')"
| "constructor_name (Arr xs) = ''Array''"
| "constructor_name v = ''other''"

text \<open>The own enumerable properties a \<open>for ... in\<close> loop visits.\<close>

fun own_props :: "val \<Rightarrow> (string \<times> val) list" where
  "own_props (Obj ps) = ps"
| "own_props v = []"

text \<open>Truthiness, for \<open>initState || {}\<close>.\<close>

fun truthy :: "val \<Rightarrow> bool" where
  "truthy Undefined = False"
| "truthy Null = False"
| "truthy (Bool b) = b"
| "truthy (Num n) = (n \<noteq> 0)"
| "truthy (Str s) = (s \<noteq> [])"
| "truthy v = True"

section \<open>Exceptions, results and calls\<close>

text \<open>
  \<open>TypeError m\<close> and \<open>Error m\<close> are the exceptions the source throws itself, with
  their messages. \<open>EngineTypeError\<close> is the \<open>TypeError\<close> the language raises when a
  property of \<open>null\<close> or \<open>undefined\<close> is read, written or deleted, when a
  property is written on a primitive in strict mode (class bodies are strict), or when
  \<open>for ... of\<close> is given \<open>undefined\<close> to iterate.
\<close>

datatype error =
    TypeError string
  | Error string
  | EngineTypeError

text \<open>
  The result of one property operation on a stem. \<open>Unmodelled\<close> is returned for the
  stems whose own properties the value type does not represent: writing to or deleting
  from an array, a string or a function (index, \<open>length\<close> and expando properties).
\<close>

datatype 'a result = Ok 'a | Throws error | Unmodelled

text \<open>
  How a call of \<open>setState\<close> ends: it returns, it throws, or it reaches a property
  operation that is \<open>Unmodelled\<close> (\<open>Outside\<close>; nothing is claimed about such a call
  beyond what it did before that point).
\<close>

datatype outcome = Returned | Threw error | Outside

text \<open>
  A callback is opaque: calling it is recorded as an event, callee and arguments, and
  the trace of a method is the list of the calls it made, in order. A callback is
  taken to return normally and not to call back into the object that invoked it.
\<close>

datatype event = Call val "val list"

fun callee :: "event \<Rightarrow> val" where
  "callee (Call f args) = f"

section \<open>DataStore\<close>

record data_store =
  state :: val
  subscribers :: "val list"

text \<open>\<open>constructor(initState)\<close>\<close>

definition DataStore :: "val \<Rightarrow> data_store" where
  "DataStore initState =
     \<lparr> state = (if truthy initState then initState else Obj []), subscribers = [] \<rparr>"

subsection \<open>Property operations on the stem\<close>

text \<open>\<open>stem[key]\<close>\<close>

fun get_prop :: "val \<Rightarrow> string \<Rightarrow> val result" where
  "get_prop (Obj ps) key = Ok (case map_of ps key of None \<Rightarrow> Undefined | Some v \<Rightarrow> v)"
| "get_prop Null key = Throws EngineTypeError"
| "get_prop Undefined key = Throws EngineTypeError"
| "get_prop (Bool b) key = Ok Undefined"
| "get_prop (Num n) key = Ok Undefined"
| "get_prop v key = Unmodelled"

text \<open>\<open>delete stem[key]\<close>\<close>

fun delete_prop :: "val \<Rightarrow> string \<Rightarrow> val result" where
  "delete_prop (Obj ps) key = Ok (Obj (AList.delete key ps))"
| "delete_prop Null key = Throws EngineTypeError"
| "delete_prop Undefined key = Throws EngineTypeError"
| "delete_prop (Bool b) key = Ok (Bool b)"
| "delete_prop (Num n) key = Ok (Num n)"
| "delete_prop v key = Unmodelled"

text \<open>\<open>stem[key] = v\<close>: an existing key keeps its place, a new key goes last.\<close>

fun set_prop :: "val \<Rightarrow> string \<Rightarrow> val \<Rightarrow> val result" where
  "set_prop (Obj ps) key v = Ok (Obj (AList.update key v ps))"
| "set_prop Null key v = Throws EngineTypeError"
| "set_prop Undefined key v = Throws EngineTypeError"
| "set_prop (Bool b) key v = Throws EngineTypeError"
| "set_prop (Num n) key v = Throws EngineTypeError"
| "set_prop s key v = Unmodelled"

text \<open>
  The recursive call \<open>this.setState(newState[key], stem[key])\<close> mutates the object
  \<open>stem[key]\<close> in place. In the tree the mutated child is put back at its key.
\<close>

fun put_back :: "val \<Rightarrow> string \<Rightarrow> val \<Rightarrow> val" where
  "put_back (Obj ps) key child = Obj (AList.update key child ps)"
| "put_back stem key child = stem"

fun to_outcome :: "'a result \<Rightarrow> outcome" where
  "to_outcome (Ok x) = Returned"
| "to_outcome (Throws e) = Threw e"
| "to_outcome Unmodelled = Outside"

subsection \<open>setState\<close>

text \<open>
  \<open>setState subs is_state newState stem\<close> is the method \<open>setState(newState, stem)\<close> of
  a store whose subscriber list is \<open>subs\<close>. It returns how the call ended, the stem
  after the call (mutated in place, also when the call throws part of the way) and
  the calls made to subscribers.

  \<open>is_state\<close> is the test \<open>stem === this.state\<close>. The state is the root of the tree
  and \<open>stem[key]\<close> is a child, so the test holds for a call on the state itself and
  fails in the recursive call.

  \<open>for_in\<close> is the loop \<open>for (const key in newState)\<close> over the properties that
  remain to be visited; \<open>newState[key]\<close> is the value listed with the key.
\<close>

lemma size_own_props: "size_list (size_prod (\<lambda>_. 0) size) (own_props v) \<le> size v"
  by (cases v) simp_all

function setState :: "val list \<Rightarrow> bool \<Rightarrow> val \<Rightarrow> val \<Rightarrow> outcome \<times> val \<times> event list"
  and for_in :: "val list \<Rightarrow> (string \<times> val) list \<Rightarrow> val \<Rightarrow> outcome \<times> val \<times> event list"
where
  "setState subs is_state newState stem =
     (if typeof newState \<noteq> ''object'' \<or> newState = Null \<or> constructor_name newState \<noteq> ''Object''
      then (Threw (TypeError ''DataStore.setState: newState must be an object''), stem, [])
      else
        (case for_in subs (own_props newState) stem of
           (Returned, stem', evs) \<Rightarrow>
             (Returned, stem',
              evs @ (if is_state then map (\<lambda>each. Call each [stem']) subs else []))
         | (out, stem', evs) \<Rightarrow> (out, stem', evs)))"
| "for_in subs [] stem = (Returned, stem, [])"
| "for_in subs ((key, v) # rest) stem =
     (if v = Null \<or> v = Undefined then
        (case delete_prop stem key of
           Ok stem' \<Rightarrow> for_in subs rest stem'
         | r \<Rightarrow> (to_outcome r, stem, []))
      else if typeof v = ''object'' then
        (case get_prop stem key of
           Ok child \<Rightarrow>
             (if typeof child = ''object'' then
                (case setState subs False v child of
                   (Returned, child', evs) \<Rightarrow>
                     (case for_in subs rest (put_back stem key child') of
                        (out, stem', evs') \<Rightarrow> (out, stem', evs @ evs'))
                 | (out, child', evs) \<Rightarrow> (out, put_back stem key child', evs))
              else
                (case set_prop stem key v of
                   Ok stem' \<Rightarrow> for_in subs rest stem'
                 | r \<Rightarrow> (to_outcome r, stem, [])))
         | r \<Rightarrow> (to_outcome r, stem, []))
      else
        (case set_prop stem key v of
           Ok stem' \<Rightarrow> for_in subs rest stem'
         | r \<Rightarrow> (to_outcome r, stem, [])))"
  by pat_completeness auto

termination
  apply (relation "measure (\<lambda>x. case x of
      Inl (subs, is_state, newState, stem) \<Rightarrow> 2 * size newState + 1
    | Inr (subs, ps, stem) \<Rightarrow> 2 * size_list (size_prod (\<lambda>_. 0) size) ps)")
  subgoal by simp
  subgoal for subs is_state newState stem
    using size_own_props [of newState] by simp
  subgoal by simp
  subgoal by simp
  subgoal by simp
  subgoal by simp
  subgoal by simp
  done

declare setState.simps [simp del]

text \<open>
  The call \<open>store.setState(newState)\<close>: the parameter \<open>stem\<close> takes its default,
  \<open>this.state\<close>.
\<close>

definition DataStore_setState :: "data_store \<Rightarrow> val \<Rightarrow> outcome \<times> data_store \<times> event list" where
  "DataStore_setState ds newState =
     (case setState (subscribers ds) True newState (state ds) of
        (out, stem', evs) \<Rightarrow> (out, ds\<lparr>state := stem'\<rparr>, evs))"

subsection \<open>replaceState, onStateChanged\<close>

definition replaceState :: "data_store \<Rightarrow> val \<Rightarrow> data_store \<times> event list" where
  "replaceState ds newState =
     (if typeof newState \<noteq> ''object'' \<or> newState = Null then (ds, [])
      else (ds\<lparr>state := newState\<rparr>, map (\<lambda>each. Call each [newState]) (subscribers ds)))"

text \<open>Returns the store and the method's return value.\<close>

definition onStateChanged :: "data_store \<Rightarrow> val \<Rightarrow> data_store \<times> val" where
  "onStateChanged ds callback =
     (if typeof callback = ''function'' \<and> callback \<notin> set (subscribers ds)
      then (ds\<lparr>subscribers := subscribers ds @ [callback]\<rparr>, callback)
      else (ds, Undefined))"

section \<open>Actions\<close>

text \<open>
  The record the constructor installs for every action name. \<open>func\<close> is \<open>null\<close>
  until a function is registered.
\<close>

record action =
  action_subscribers :: "val list"
  func :: val

text \<open>
  The object \<open>this.actions\<close> is the object literal given to the constructor: the
  list of its own properties, action name to record, on top of \<open>Object.prototype\<close>.
\<close>

type_synonym actions = "(string \<times> action) list"

text \<open>
  The property names an object literal inherits from \<open>Object.prototype\<close>: the
  standard methods, \<open>constructor\<close>, and the legacy accessors. Their values are built-in
  functions (\<open>__proto__\<close>: the prototype object itself): truthy, not \<open>undefined\<close>,
  and without a property \<open>func\<close> or \<open>subscribers\<close>.
\<close>

definition Object_prototype_names :: "string list" where
  "Object_prototype_names =
     [''constructor'', ''hasOwnProperty'', ''isPrototypeOf'', ''propertyIsEnumerable'',
      ''toLocaleString'', ''toString'', ''valueOf'', ''__proto__'',
      ''__defineGetter__'', ''__defineSetter__'', ''__lookupGetter__'', ''__lookupSetter__'']"

text \<open>
  What \<open>this.actions[key]\<close> evaluates to: the record of a declared action (an own
  property, which shadows an inherited one), an inherited value, or \<open>undefined\<close>.
\<close>

datatype slot = Own action | Inherited | Missing

definition actions_get :: "actions \<Rightarrow> string \<Rightarrow> slot" where
  "actions_get acts key =
     (case map_of acts key of
        Some a \<Rightarrow> Own a
      | None \<Rightarrow> (if key \<in> set Object_prototype_names then Inherited else Missing))"

text \<open>
  \<open>constructor(actions)\<close>: every key of the object passed in is redefined to hold a
  fresh record; the values passed in are dropped.
\<close>

definition Actions :: "(string \<times> val) list \<Rightarrow> actions" where
  "Actions spec = map (\<lambda>(key, v). (key, \<lparr> action_subscribers = [], func = Null \<rparr>)) spec"

text \<open>
  \<open>register(key, func)\<close>. \<open>Object.defineProperty\<close> replaces the record stored at
  \<open>key\<close> by the object literal given as \<open>value\<close>. The property is still configurable
  (only \<open>writable\<close> was ever set to false), so the redefinition goes through.

  For an inherited name, \<open>this.actions[key]\<close> is not \<open>undefined\<close> and its \<open>.func\<close>
  is \<open>undefined\<close>, which is not \<open>null\<close>: the fourth guard throws.
\<close>

definition register :: "actions \<Rightarrow> val \<Rightarrow> val \<Rightarrow> error + actions" where
  "register acts key f =
     (case key of
        Str k \<Rightarrow>
          (if typeof f \<noteq> ''function''
           then Inl (TypeError ''Actions.register: func argument must be a function'')
           else
             (case actions_get acts k of
                Missing \<Rightarrow>
                  Inl (Error ''Actions.register: action not declared, please add it to the constructor'')
              | Inherited \<Rightarrow>
                  Inl (Error ''Actions.register: action already registered'')
              | Own a \<Rightarrow>
                  (if func a \<noteq> Null
                   then Inl (Error ''Actions.register: action already registered'')
                   else Inr (AList.update k \<lparr> action_subscribers = [], func = f \<rparr> acts))))
      | _ \<Rightarrow> Inl (TypeError ''Actions.register: key argument must be a string''))"

text \<open>
  \<open>publish(key, data)\<close>: the calls made, in the order of the subscriber list. For an
  inherited name \<open>action\<close> is truthy and \<open>action.subscribers\<close> is \<open>undefined\<close>:
  the \<open>for ... of\<close> loop raises the engine's TypeError.
\<close>

definition publish :: "actions \<Rightarrow> string \<Rightarrow> val \<Rightarrow> error + event list" where
  "publish acts key data =
     (case actions_get acts key of
        Missing \<Rightarrow> Inr []
      | Inherited \<Rightarrow> Inl EngineTypeError
      | Own a \<Rightarrow> Inr (map (\<lambda>each. Call each [data]) (action_subscribers a)))"

text \<open>
  \<open>buildDoneFunction(key)\<close> returns a closure over the instance and \<open>key\<close>;
  \<open>done_body\<close> is what the closure does when it is called with \<open>data\<close>, on the
  instance as it is at that moment.
\<close>

definition buildDoneFunction :: "string \<Rightarrow> val" where
  "buildDoneFunction key = DoneFn key"

definition done_body :: "actions \<Rightarrow> string \<Rightarrow> val \<Rightarrow> error + event list" where
  "done_body acts key data = publish acts key data"

text \<open>
  \<open>call(key, args)\<close>. Without a registered function it calls \<open>this.publish(key)\<close>
  with one argument, so \<open>data\<close> is \<open>undefined\<close> there. An inherited value is truthy
  and its \<open>.func\<close> is \<open>undefined\<close>, so the call goes to \<open>publish\<close> as well.
\<close>

definition call :: "actions \<Rightarrow> string \<Rightarrow> val \<Rightarrow> error + event list" where
  "call acts key args =
     (case actions_get acts key of
        Missing \<Rightarrow> Inr []
      | Inherited \<Rightarrow> publish acts key Undefined
      | Own a \<Rightarrow>
          (if typeof (func a) = ''function''
           then Inr [Call (func a) [buildDoneFunction key, args]]
           else publish acts key Undefined))"

text \<open>
  \<open>on(key, callback)\<close> returns the instance and the method's return value. For a name
  that is not declared the engine's TypeError is raised: \<open>this.actions[key]\<close> is
  \<open>undefined\<close> and \<open>.subscribers\<close> is read from it, or it is an inherited value,
  whose \<open>.subscribers\<close> is \<open>undefined\<close>, and \<open>.includes\<close> is read from that.
\<close>

definition on :: "actions \<Rightarrow> val \<Rightarrow> val \<Rightarrow> error + (actions \<times> val)" where
  "on acts key callback =
     (case key of
        Str k \<Rightarrow>
          (if typeof callback \<noteq> ''function''
           then Inl (TypeError ''Actions.on: callback argument must be a function'')
           else
             (case actions_get acts k of
                Missing \<Rightarrow> Inl EngineTypeError
              | Inherited \<Rightarrow> Inl EngineTypeError
              | Own a \<Rightarrow>
                  (if callback \<notin> set (action_subscribers a)
                   then Inr (AList.update k
                               (a\<lparr>action_subscribers := action_subscribers a @ [callback]\<rparr>) acts,
                             callback)
                   else Inr (acts, Undefined))))
      | _ \<Rightarrow> Inl (TypeError ''Actions.on: key argument must be a string''))"

section \<open>Observations used in the statements\<close>

text \<open>
  \<open>lookup_path v path\<close> is the value reached from \<open>v\<close> by following the keys of
  \<open>path\<close> through plain objects, if every key is there.
\<close>

fun lookup_path :: "val \<Rightarrow> string list \<Rightarrow> val option" where
  "lookup_path v [] = Some v"
| "lookup_path (Obj ps) (k # ks) =
     (case map_of ps k of None \<Rightarrow> None | Some c \<Rightarrow> lookup_path c ks)"
| "lookup_path v (k # ks) = None"

text \<open>
  \<open>untouched patch path\<close>: the patch does not mention the path. Following the path
  through the patch, one stays inside plain objects until a key of the path is absent
  from the patch object reached.
\<close>

fun untouched :: "val \<Rightarrow> string list \<Rightarrow> bool" where
  "untouched (Obj ps) (k # ks) = (\<forall>(k', c) \<in> set ps. k' = k \<longrightarrow> untouched c ks)"
| "untouched v ks = False"

text \<open>How many of the calls in a trace went to \<open>cb\<close>.\<close>

definition calls_to :: "val \<Rightarrow> event list \<Rightarrow> nat" where
  "calls_to cb evs = length (filter (\<lambda>e. callee e = cb) evs)"

section \<open>Properties of the merge\<close>

text \<open>The recursive call, and the loop, never call a subscriber.\<close>

lemma inner_no_events:
  "\<not> is_state \<Longrightarrow> snd (snd (setState subs is_state newState stem)) = []"
  "snd (snd (for_in subs ps stem)) = []"
proof (induction subs is_state newState stem and subs ps stem rule: setState_for_in.induct)
  case (1 subs is_state newState stem)
  then show ?case
    by (auto simp: setState.simps split: prod.splits outcome.splits)
next
  case (2 subs stem)
  then show ?case by simp
next
  case (3 subs key v rest stem)
  show ?case
  proof (cases "v = Null \<or> v = Undefined")
    case True
    then show ?thesis
      using "3.IH"(1) by (cases "delete_prop stem key") auto
  next
    case nv: False
    show ?thesis
    proof (cases "typeof v = ''object''")
      case False
      then show ?thesis
        using nv "3.IH"(5) by (cases "set_prop stem key v") auto
    next
      case obj: True
      show ?thesis
      proof (cases "get_prop stem key")
        case (Ok child)
        show ?thesis
        proof (cases "typeof child = ''object''")
          case False
          then show ?thesis
            using nv obj Ok "3.IH"(4) by (cases "set_prop stem key v") auto
        next
          case True
          obtain out child' evs where r: "setState subs False v child = (out, child', evs)"
            by (cases "setState subs False v child") auto
          have evs: "evs = []"
            using "3.IH"(2) [OF nv obj Ok True] r by simp
          show ?thesis
          proof (cases out)
            case Returned
            have "snd (snd (for_in subs rest (put_back stem key child'))) = []"
              using "3.IH"(3) [OF nv obj Ok True r [symmetric] Returned refl] .
            then show ?thesis
              using nv obj Ok True r Returned evs by (auto split: prod.splits)
          next
            case (Threw e)
            then show ?thesis using nv obj Ok True r evs by simp
          next
            case Outside
            then show ?thesis using nv obj Ok True r evs by simp
          qed
        qed
      next
        case (Throws e)
        then show ?thesis using nv obj by simp
      next
        case Unmodelled
        then show ?thesis using nv obj by simp
      qed
    qed
  qed
qed

lemma lookup_path_Cons_SomeD:
  "lookup_path stem (k # ks) = Some v \<Longrightarrow>
     \<exists>ss c. stem = Obj ss \<and> map_of ss k = Some c \<and> lookup_path c ks = Some v"
  by (cases stem) (auto split: option.splits)

lemma untouched_ObjD:
  "untouched p ks \<Longrightarrow> \<exists>ps k ks'. p = Obj ps \<and> ks = k # ks'"
  by (cases p; cases ks) auto


lemma setState_valid_stem:
  "\<not> (typeof newState \<noteq> ''object'' \<or> newState = Null \<or> constructor_name newState \<noteq> ''Object'') \<Longrightarrow>
     fst (snd (setState subs is_state newState stem)) = fst (snd (for_in subs (own_props newState) stem))"
  by (auto simp: setState.simps split: prod.splits outcome.splits)

lemma frame_path:
  "untouched newState path \<Longrightarrow> lookup_path stem path = Some w \<Longrightarrow>
     lookup_path (fst (snd (setState subs is_state newState stem))) path = Some w"
  "(\<forall>(k', c) \<in> set ps. k' = k \<longrightarrow> untouched c ks) \<Longrightarrow> lookup_path stem (k # ks) = Some w \<Longrightarrow>
     lookup_path (fst (snd (for_in subs ps stem))) (k # ks) = Some w"
proof (induction subs is_state newState stem and subs ps stem
    arbitrary: path w and k ks w rule: setState_for_in.induct)
  case (1 subs is_state newState stem)
  from "1.prems"(1) obtain ps k ks where n: "newState = Obj ps" and p: "path = k # ks"
    using untouched_ObjD by blast
  show ?case
  proof (cases "constructor_name newState = ''Object''")
    case False
    then show ?thesis
      using "1.prems"(2) by (simp add: setState.simps)
  next
    case True
    have valid: "\<not> (typeof newState \<noteq> ''object'' \<or> newState = Null \<or>
        constructor_name newState \<noteq> ''Object'')"
      using True n by simp
    have "lookup_path (fst (snd (for_in subs (own_props newState) stem))) (k # ks) = Some w"
      using "1.IH" [OF valid, of k ks w] "1.prems" n p by simp
    then show ?thesis
      using valid p by (simp add: setState_valid_stem)
  qed
next
  case (2 subs stem)
  then show ?case by simp
next
  case (3 subs key v rest stem)
  from "3.prems"(2) obtain ss c0 where stem: "stem = Obj ss" and c0: "map_of ss k = Some c0"
    and lc0: "lookup_path c0 ks = Some w"
    using lookup_path_Cons_SomeD by blast
  have rest: "\<forall>(k', c) \<in> set rest. k' = k \<longrightarrow> untouched c ks"
    using "3.prems"(1) by simp
  have here: "key = k \<Longrightarrow> untouched v ks"
    using "3.prems"(1) by simp
  show ?case
  proof (cases "v = Null \<or> v = Undefined")
    case True
    then have ne: "key \<noteq> k" using here by auto
    have "lookup_path (Obj (AList.delete key ss)) (k # ks) = Some w"
      using ne "3.prems"(2) stem by (simp add: delete_conv')
    then show ?thesis
      using "3.IH"(1) [OF True _ rest] True stem by simp
  next
    case nv: False
    show ?thesis
    proof (cases "typeof v = ''object''")
      case False
      then have ne: "key \<noteq> k" using here untouched_ObjD [of v ks] by auto
      have "lookup_path (Obj (AList.update key v ss)) (k # ks) = Some w"
        using ne "3.prems"(2) stem by (simp add: update_conv')
      then show ?thesis
        using "3.IH"(5) [OF nv False _ rest] nv False stem by simp
    next
      case obj: True
      define child where "child = (case map_of ss key of None \<Rightarrow> Undefined | Some c \<Rightarrow> c)"
      have get: "get_prop stem key = Ok child"
        using stem child_def by simp
      show ?thesis
      proof (cases "typeof child = ''object''")
        case False
        have ne: "key \<noteq> k"
        proof
          assume "key = k"
          then have "untouched v ks" and "child = c0" using here c0 child_def by auto
          then show False
            using lc0 False untouched_ObjD [of v ks] by (cases c0) auto
        qed
        have "lookup_path (Obj (AList.update key v ss)) (k # ks) = Some w"
          using ne "3.prems"(2) stem by (simp add: update_conv')
        then show ?thesis
          using "3.IH"(4) [OF nv obj get False _ rest] nv obj get False stem by simp
      next
        case True
        obtain out child' evs where r: "setState subs False v child = (out, child', evs)"
          by (cases "setState subs False v child") auto
        have pb: "lookup_path (put_back stem key child') (k # ks) = Some w"
        proof (cases "key = k")
          case False
          then show ?thesis
            using "3.prems"(2) stem by (simp add: update_conv')
        next
          case k: True
          then have "child = c0" using c0 child_def by simp
          then have "lookup_path (fst (snd (setState subs False v child))) ks = Some w"
            using "3.IH"(2) [OF nv obj get True here [OF k]] lc0 by simp
          then show ?thesis
            using r k stem by (simp add: update_conv')
        qed
        show ?thesis
        proof (cases out)
          case Returned
          have "lookup_path (fst (snd (for_in subs rest (put_back stem key child')))) (k # ks) = Some w"
            using "3.IH"(3) [OF nv obj get True r [symmetric] Returned refl rest pb] .
          then show ?thesis
            using nv obj get True r Returned by (auto split: prod.splits)
        next
          case (Threw e)
          then show ?thesis using nv obj get True r pb by simp
        next
          case Outside
          then show ?thesis using nv obj get True r pb by simp
        qed
      qed
    qed
  qed
qed


lemma for_in_step_Returned:
  assumes "for_in subs ((key, v) # rest) (Obj ss) = (Returned, stem', evs)"
  shows "\<exists>ss1 evs'. for_in subs rest (Obj ss1) = (Returned, stem', evs') \<and>
           (\<forall>j. j \<noteq> key \<longrightarrow> map_of ss1 j = map_of ss j)"
proof (cases "v = Null \<or> v = Undefined")
  case True
  then have "for_in subs rest (Obj (AList.delete key ss)) = (Returned, stem', evs)"
    using assms by simp
  then show ?thesis
    by (metis delete_conv' fun_upd_other)
next
  case nv: False
  have set_case: ?thesis
    if "for_in subs rest (Obj (AList.update key v ss)) = (Returned, stem', evs)"
    using that by (metis update_conv' fun_upd_other)
  show ?thesis
  proof (cases "typeof v = ''object''")
    case False
    then show ?thesis using nv assms set_case by simp
  next
    case obj: True
    define child where "child = (case map_of ss key of None \<Rightarrow> Undefined | Some c \<Rightarrow> c)"
    show ?thesis
    proof (cases "typeof child = ''object''")
      case False
      then show ?thesis using nv obj assms set_case child_def by simp
    next
      case True
      obtain out child' evs1 where r: "setState subs False v child = (out, child', evs1)"
        by (cases "setState subs False v child") auto
      have "out = Returned"
        using assms nv obj True r child_def by (cases out) (auto split: prod.splits)
      then obtain evs' where
        "for_in subs rest (Obj (AList.update key child' ss)) = (Returned, stem', evs')"
        using assms nv obj True r child_def by (auto split: prod.splits)
      then show ?thesis
        by (metis update_conv' fun_upd_other)
    qed
  qed
qed

lemma for_in_recurses:
  "distinct (map fst ps) \<Longrightarrow> map_of ps k = Some (Obj pk) \<Longrightarrow> map_of ss k = Some (Obj sk) \<Longrightarrow>
     for_in subs ps (Obj ss) = (Returned, stem', evs) \<Longrightarrow>
     lookup_path stem' [k] = Some (fst (snd (setState subs False (Obj pk) (Obj sk))))"
proof (induction ps arbitrary: ss evs)
  case Nil
  then show ?case by simp
next
  case (Cons p rest)
  obtain key v where p: "p = (key, v)" by (cases p)
  show ?case
  proof (cases "key = k")
    case False
    from Cons.prems(4) p obtain ss1 evs' where
      1: "for_in subs rest (Obj ss1) = (Returned, stem', evs')" and
      2: "\<forall>j. j \<noteq> key \<longrightarrow> map_of ss1 j = map_of ss j"
      using for_in_step_Returned by blast
    have "map_of ss1 k = Some (Obj sk)" using 2 False Cons.prems(3) by simp
    moreover have "map_of rest k = Some (Obj pk)" using Cons.prems(2) p False by simp
    moreover have "distinct (map fst rest)" using Cons.prems(1) by simp
    ultimately show ?thesis using Cons.IH 1 by blast
  next
    case True
    then have v: "v = Obj pk" using Cons.prems(2) p by simp
    obtain out child' evs1 where r: "setState subs False (Obj pk) (Obj sk) = (out, child', evs1)"
      by (cases "setState subs False (Obj pk) (Obj sk)") auto
    have out: "out = Returned"
      using Cons.prems(3,4) p v True r by (cases out) (auto split: prod.splits)
    then obtain evs' where
      f: "for_in subs rest (Obj (AList.update k child' ss)) = (Returned, stem', evs')"
      using Cons.prems(3,4) p v True r by (auto split: prod.splits)
    have "k \<notin> fst ` set rest" using Cons.prems(1) p True by auto
    then have "\<forall>(k', c) \<in> set rest. k' = k \<longrightarrow> untouched c []" by force
    moreover have "lookup_path (Obj (AList.update k child' ss)) [k] = Some child'"
      by (simp add: update_conv')
    ultimately have "lookup_path (fst (snd (for_in subs rest (Obj (AList.update k child' ss))))) [k] = Some child'"
      by (rule frame_path(2))
    then show ?thesis using f r by simp
  qed
qed

text \<open>What a call of \<open>setState\<close> that returns has done.\<close>

lemma setState_events:
  "setState subs is_state newState stem = (Returned, stem', evs) \<Longrightarrow>
     evs = (if is_state then map (\<lambda>each. Call each [stem']) subs else [])
     \<and> stem' = fst (snd (for_in subs (own_props newState) stem))"
  using inner_no_events(2) [of subs "own_props newState" stem]
  by (auto simp: setState.simps split: if_splits prod.splits outcome.splits)

lemma calls_to_count:
  "calls_to cb (map (\<lambda>each. Call each [s]) subs) = count_list subs cb"
  by (induction subs) (simp_all add: calls_to_def)



text \<open>Looking a name up in the actions object.\<close>

lemma actions_get_Own: "map_of acts k = Some a \<Longrightarrow> actions_get acts k = Own a"
  by (simp add: actions_get_def)

lemma actions_get_Own_iff: "actions_get acts k = Own a \<longleftrightarrow> map_of acts k = Some a"
  by (auto simp: actions_get_def split: option.splits if_splits)


section \<open>Claims\<close>

text \<open>
  C1, as stated, fails: \<open>register\<close> does not keep the subscribers of the action.
  A callback is subscribed to \<open>a\<close>, then a function is registered for \<open>a\<close>: the
  subscriber list of \<open>a\<close> is empty afterwards.
\<close>

theorem register_resets_subscribers_counterexample:
  "on (Actions [(''a'', Null)]) (Str ''a'') (Function 1) =
     Inr ([(''a'', \<lparr>action_subscribers = [Function 1], func = Null\<rparr>)], Function 1)
   \<and> register [(''a'', \<lparr>action_subscribers = [Function 1], func = Null\<rparr>)] (Str ''a'') (Function 7) =
     Inr [(''a'', \<lparr>action_subscribers = [], func = Function 7\<rparr>)]"
  by (simp add: Actions_def on_def register_def actions_get_def)

text \<open>
  C1, amended. When \<open>register(key, f)\<close> returns, \<open>key\<close> is the name of a declared
  action that had no function, \<open>f\<close> is a function, and the action's record is now a
  fresh one: \<open>f\<close> as its function and an empty subscriber list. The records of all
  other actions are as before.
\<close>

theorem register_installs_fresh_record:
  "register acts key f = Inr acts' \<longrightarrow>
     (\<exists>k a. key = Str k \<and> map_of acts k = Some a \<and> func a = Null \<and> typeof f = ''function''
        \<and> map_of acts' k = Some \<lparr>action_subscribers = [], func = f\<rparr>
        \<and> (\<forall>j. j \<noteq> k \<longrightarrow> map_of acts' j = map_of acts j))"
  by (cases key)
    (auto simp: register_def update_conv' actions_get_Own_iff split: if_splits slot.splits)

text \<open>
  Two actions with one subscriber each; a function is registered for the first.
\<close>

theorem register_installs_fresh_record_witness:
  "register [(''a'', \<lparr>action_subscribers = [Function 1], func = Null\<rparr>),
             (''b'', \<lparr>action_subscribers = [Function 2], func = Null\<rparr>)] (Str ''a'') (Function 7) =
     Inr [(''a'', \<lparr>action_subscribers = [], func = Function 7\<rparr>),
          (''b'', \<lparr>action_subscribers = [Function 2], func = Null\<rparr>)]
   \<and> map_of [(''a'', \<lparr>action_subscribers = [], func = Function 7\<rparr>),
              (''b'', \<lparr>action_subscribers = [Function 2], func = Null\<rparr>)] ''a'' =
       Some \<lparr>action_subscribers = [], func = Function 7\<rparr>
   \<and> map_of [(''a'', \<lparr>action_subscribers = [], func = Function 7\<rparr>),
              (''b'', \<lparr>action_subscribers = [Function 2], func = Null\<rparr>)] ''b'' =
       map_of [(''a'', \<lparr>action_subscribers = [Function 1], func = Null\<rparr>),
               (''b'', \<lparr>action_subscribers = [Function 2], func = Null\<rparr>)] ''b''"
proof -
  let ?acts = "[(''a'', \<lparr>action_subscribers = [Function 1], func = Null\<rparr>),
                (''b'', \<lparr>action_subscribers = [Function 2], func = Null\<rparr>)]"
  let ?acts' = "[(''a'', \<lparr>action_subscribers = [], func = Function 7\<rparr>),
                 (''b'', \<lparr>action_subscribers = [Function 2], func = Null\<rparr>)]"
  have run: "register ?acts (Str ''a'') (Function 7) = Inr ?acts'"
    by (simp add: register_def actions_get_def)
  from register_installs_fresh_record [of ?acts "Str ''a''" "Function 7" ?acts'] run
  have "map_of ?acts' ''a'' = Some \<lparr>action_subscribers = [], func = Function 7\<rparr>
      \<and> map_of ?acts' ''b'' = map_of ?acts ''b''"
    by auto
  then show ?thesis using run by simp
qed

text \<open>
  C2. The claim is that a patch value that is an array always replaces \<open>stem[k]\<close>,
  whatever is stored there. The code does so when \<open>stem[k]\<close> is absent or a
  primitive. When \<open>stem[k]\<close> is an array or a plain object, \<open>typeof\<close> is
  \<open>object\<close> on both sides, the method recurses with the array as \<open>newState\<close>, and
  the recursive call's own argument check throws: the state keeps the old value and no
  subscriber is called. The four cases, evaluated.
\<close>

theorem setState_array_over_object_throws:
  "DataStore_setState \<lparr>state = Obj [(''k'', Arr [Num 1])], subscribers = [Function 0]\<rparr>
       (Obj [(''k'', Arr [Num 2])]) =
     (Threw (TypeError ''DataStore.setState: newState must be an object''),
      \<lparr>state = Obj [(''k'', Arr [Num 1])], subscribers = [Function 0]\<rparr>, [])
   \<and> DataStore_setState \<lparr>state = Obj [(''k'', Obj [(''x'', Num 1)])], subscribers = [Function 0]\<rparr>
       (Obj [(''k'', Arr [Num 2])]) =
     (Threw (TypeError ''DataStore.setState: newState must be an object''),
      \<lparr>state = Obj [(''k'', Obj [(''x'', Num 1)])], subscribers = [Function 0]\<rparr>, [])
   \<and> DataStore_setState \<lparr>state = Obj [(''k'', Num 1)], subscribers = [Function 0]\<rparr>
       (Obj [(''k'', Arr [Num 2])]) =
     (Returned, \<lparr>state = Obj [(''k'', Arr [Num 2])], subscribers = [Function 0]\<rparr>,
      [Call (Function 0) [Obj [(''k'', Arr [Num 2])]]])
   \<and> DataStore_setState \<lparr>state = Obj [], subscribers = [Function 0]\<rparr>
       (Obj [(''k'', Arr [Num 2])]) =
     (Returned, \<lparr>state = Obj [(''k'', Arr [Num 2])], subscribers = [Function 0]\<rparr>,
      [Call (Function 0) [Obj [(''k'', Arr [Num 2])]]])"
  by (simp add: DataStore_setState_def setState.simps)




text \<open>
  C4. \<open>setState\<close> merges without destroying, at any depth.
  \<^item> A path that the patch does not mention (at some depth the patch object has no such
    key, and above it patch and state hold plain objects) holds the same value after
    the call as before, however the call ends. This covers the top-level keys absent
    from the patch and the sibling keys of a nested object.
  \<^item> Where the patch value and the existing value at \<open>k\<close> are both plain objects
    and the call returns, the value at \<open>k\<close> afterwards is what the recursive call
    made of the existing one.
  \<^item> From the state \<open>{a: {x: 1, y: 2}}\<close>, \<open>setState({a: {x: 10}})\<close> gives
    \<open>{a: {x: 10, y: 2}}\<close>; the first state is what \<open>setState({a: {x: 1, y: 2}})\<close>
    makes of the empty state.
\<close>

theorem setState_merges_nested:
  "(untouched patch path \<and> lookup_path (state ds) path = Some w \<longrightarrow>
      lookup_path (state (fst (snd (DataStore_setState ds patch)))) path = Some w)
   \<and> (distinct (map fst ps) \<and> map_of ps k = Some (Obj pk) \<and>
      state ds = Obj ss \<and> map_of ss k = Some (Obj sk) \<and>
      DataStore_setState ds (Obj ps) = (Returned, ds', evs) \<longrightarrow>
        lookup_path (state ds') [k] =
          Some (fst (snd (setState (subscribers ds) False (Obj pk) (Obj sk)))))
   \<and> DataStore_setState (DataStore (Obj [(''a'', Obj [(''x'', Num 1), (''y'', Num 2)])]))
        (Obj [(''a'', Obj [(''x'', Num 10)])]) =
      (Returned, \<lparr>state = Obj [(''a'', Obj [(''x'', Num 10), (''y'', Num 2)])], subscribers = []\<rparr>, [])
   \<and> DataStore_setState (DataStore Undefined) (Obj [(''a'', Obj [(''x'', Num 1), (''y'', Num 2)])]) =
      (Returned, \<lparr>state = Obj [(''a'', Obj [(''x'', Num 1), (''y'', Num 2)])], subscribers = []\<rparr>, [])"
proof (intro conjI impI)
  assume "untouched patch path \<and> lookup_path (state ds) path = Some w"
  then have "lookup_path (fst (snd (setState (subscribers ds) True patch (state ds)))) path = Some w"
    by (simp add: frame_path(1))
  then show "lookup_path (state (fst (snd (DataStore_setState ds patch)))) path = Some w"
    by (auto simp: DataStore_setState_def split: prod.splits)
next
  assume a: "distinct (map fst ps) \<and> map_of ps k = Some (Obj pk) \<and>
      state ds = Obj ss \<and> map_of ss k = Some (Obj sk) \<and>
      DataStore_setState ds (Obj ps) = (Returned, ds', evs)"
  obtain out stem' evs' where r: "setState (subscribers ds) True (Obj ps) (Obj ss) = (out, stem', evs')"
    by (cases "setState (subscribers ds) True (Obj ps) (Obj ss)") auto
  from a r have out: "out = Returned" and ds': "state ds' = stem'"
    by (auto simp: DataStore_setState_def)
  from r out obtain evs'' where "for_in (subscribers ds) ps (Obj ss) = (Returned, stem', evs'')"
    by (auto simp: setState.simps split: if_splits prod.splits outcome.splits)
  then have "lookup_path stem' [k] =
      Some (fst (snd (setState (subscribers ds) False (Obj pk) (Obj sk))))"
    using a for_in_recurses by blast
  then show "lookup_path (state ds') [k] =
      Some (fst (snd (setState (subscribers ds) False (Obj pk) (Obj sk))))"
    using ds' by simp
qed (simp_all add: DataStore_setState_def DataStore_def setState.simps)

text \<open>The state \<open>{a: {x: 1, y: 2}, b: 5}\<close> and the patch \<open>{a: {x: 10}}\<close>: \<open>a.y\<close> and \<open>b\<close> stay.\<close>

theorem setState_merges_nested_witness:
  "lookup_path
      (state (fst (snd (DataStore_setState
         \<lparr>state = Obj [(''a'', Obj [(''x'', Num 1), (''y'', Num 2)]), (''b'', Num 5)], subscribers = []\<rparr>
         (Obj [(''a'', Obj [(''x'', Num 10)])])))))
      [''a'', ''y''] = Some (Num 2)
   \<and> lookup_path
      (state (fst (snd (DataStore_setState
         \<lparr>state = Obj [(''a'', Obj [(''x'', Num 1), (''y'', Num 2)]), (''b'', Num 5)], subscribers = []\<rparr>
         (Obj [(''a'', Obj [(''x'', Num 10)])])))))
      [''b''] = Some (Num 5)
   \<and> lookup_path
      (Obj [(''a'', Obj [(''x'', Num 10), (''y'', Num 2)]), (''b'', Num 5)]) [''a''] =
      Some (fst (snd (setState [] False (Obj [(''x'', Num 10)]) (Obj [(''x'', Num 1), (''y'', Num 2)]))))"
proof -
  let ?ds = "\<lparr>state = Obj [(''a'', Obj [(''x'', Num 1), (''y'', Num 2)]), (''b'', Num 5)],
              subscribers = []\<rparr>"
  let ?p = "Obj [(''a'', Obj [(''x'', Num 10)])]"
  let ?s = "Obj [(''a'', Obj [(''x'', Num 10), (''y'', Num 2)]), (''b'', Num 5)]"
  have run: "DataStore_setState ?ds ?p = (Returned, ?ds\<lparr>state := ?s\<rparr>, [])"
    by (simp add: DataStore_setState_def setState.simps)
  have 1: "lookup_path (state (fst (snd (DataStore_setState ?ds ?p)))) [''a'', ''y''] = Some (Num 2)"
    using setState_merges_nested [of ?p "[''a'', ''y'']" ?ds "Num 2"] by simp
  have 2: "lookup_path (state (fst (snd (DataStore_setState ?ds ?p)))) [''b''] = Some (Num 5)"
    using setState_merges_nested [of ?p "[''b'']" ?ds "Num 5"] by simp
  have 3: "lookup_path ?s [''a''] =
      Some (fst (snd (setState [] False (Obj [(''x'', Num 10)]) (Obj [(''x'', Num 1), (''y'', Num 2)]))))"
    using setState_merges_nested
      [of Null "[]" ?ds Null "[(''a'', Obj [(''x'', Num 10)])]" "''a''" "[(''x'', Num 10)]"
          "[(''a'', Obj [(''x'', Num 1), (''y'', Num 2)]), (''b'', Num 5)]"
          "[(''x'', Num 1), (''y'', Num 2)]" "?ds\<lparr>state := ?s\<rparr>" "[]"] run
    by simp
  show ?thesis using 1 2 3 by simp
qed



text \<open>
  C6. Validation differs between the two mutators. \<open>setState(p)\<close> with an argument
  that is not a plain object (a number, \<open>null\<close>, \<open>undefined\<close>, an array, a function)
  throws the source's TypeError \<open>newState must be an object\<close>, leaves the store as it was
  and calls no subscriber. \<open>replaceState(q)\<close> with \<open>q\<close> not of type object, or
  \<open>null\<close>, returns without an error, leaves the store as it was and calls no
  subscriber.
\<close>

theorem setState_strict_replaceState_lenient:
  "((\<forall>ps. p \<noteq> Obj ps) \<longrightarrow>
      DataStore_setState ds p =
        (Threw (TypeError ''DataStore.setState: newState must be an object''), ds, []))
   \<and> (typeof q \<noteq> ''object'' \<or> q = Null \<longrightarrow> replaceState ds q = (ds, []))"
  by (cases p) (simp_all add: DataStore_setState_def setState.simps replaceState_def)

text \<open>The inputs of the specification: \<open>42\<close>, \<open>null\<close> and \<open>[1, 2, 3]\<close>.\<close>

theorem setState_strict_replaceState_lenient_witness:
  "DataStore_setState \<lparr>state = Obj [(''foo'', Num 1)], subscribers = [Function 0]\<rparr> (Num 42) =
     (Threw (TypeError ''DataStore.setState: newState must be an object''),
      \<lparr>state = Obj [(''foo'', Num 1)], subscribers = [Function 0]\<rparr>, [])
   \<and> DataStore_setState \<lparr>state = Obj [(''foo'', Num 1)], subscribers = [Function 0]\<rparr> Null =
     (Threw (TypeError ''DataStore.setState: newState must be an object''),
      \<lparr>state = Obj [(''foo'', Num 1)], subscribers = [Function 0]\<rparr>, [])
   \<and> DataStore_setState \<lparr>state = Obj [(''foo'', Num 1)], subscribers = [Function 0]\<rparr>
         (Arr [Num 1, Num 2, Num 3]) =
     (Threw (TypeError ''DataStore.setState: newState must be an object''),
      \<lparr>state = Obj [(''foo'', Num 1)], subscribers = [Function 0]\<rparr>, [])
   \<and> replaceState \<lparr>state = Obj [(''foo'', Num 1)], subscribers = [Function 0]\<rparr> (Num 42) =
     (\<lparr>state = Obj [(''foo'', Num 1)], subscribers = [Function 0]\<rparr>, [])
   \<and> replaceState \<lparr>state = Obj [(''foo'', Num 1)], subscribers = [Function 0]\<rparr> Null =
     (\<lparr>state = Obj [(''foo'', Num 1)], subscribers = [Function 0]\<rparr>, [])"
  using
    setState_strict_replaceState_lenient
      [of "Num 42" "\<lparr>state = Obj [(''foo'', Num 1)], subscribers = [Function 0]\<rparr>" "Num 42"]
    setState_strict_replaceState_lenient
      [of Null "\<lparr>state = Obj [(''foo'', Num 1)], subscribers = [Function 0]\<rparr>" Null]
    setState_strict_replaceState_lenient
      [of "Arr [Num 1, Num 2, Num 3]" "\<lparr>state = Obj [(''foo'', Num 1)], subscribers = [Function 0]\<rparr>" Null]
  by simp

text \<open>
  C7. For a declared action with a registered function, \<open>call(key, args)\<close> makes one
  call: the function, with the \<open>done\<close> closure for \<open>key\<close> and \<open>args\<close>. No subscriber
  is called by \<open>call\<close>. When \<open>done(d)\<close> runs, on the instance as it is by then,
  every subscriber the action has at that moment is called, in the order of the list,
  each with \<open>d\<close>.
\<close>

theorem call_with_handler_defers_to_done:
  "(map_of acts key = Some a \<and> typeof (func a) = ''function'' \<longrightarrow>
      call acts key args = Inr [Call (func a) [buildDoneFunction key, args]]
      \<and> buildDoneFunction key = DoneFn key)
   \<and> (map_of acts' key = Some a' \<longrightarrow>
      done_body acts' key d = Inr (map (\<lambda>each. Call each [d]) (action_subscribers a')))"
  by (simp add: call_def done_body_def publish_def buildDoneFunction_def actions_get_def)

text \<open>
  A handler and two subscribers; \<open>done(42)\<close> once a third has subscribed.
\<close>

theorem call_with_handler_defers_to_done_witness:
  "call [(''a'', \<lparr>action_subscribers = [Function 1, Function 2], func = Function 7\<rparr>)] ''a'' (Num 5) =
     Inr [Call (Function 7) [DoneFn ''a'', Num 5]]
   \<and> done_body [(''a'', \<lparr>action_subscribers = [Function 1, Function 2, Function 3], func = Function 7\<rparr>)]
        ''a'' (Num 42) =
     Inr [Call (Function 1) [Num 42], Call (Function 2) [Num 42], Call (Function 3) [Num 42]]"
  using call_with_handler_defers_to_done
      [of "[(''a'', \<lparr>action_subscribers = [Function 1, Function 2], func = Function 7\<rparr>)]" "''a''"
          "\<lparr>action_subscribers = [Function 1, Function 2], func = Function 7\<rparr>" "Num 5"
          "[(''a'', \<lparr>action_subscribers = [Function 1, Function 2, Function 3], func = Function 7\<rparr>)]"
          "\<lparr>action_subscribers = [Function 1, Function 2, Function 3], func = Function 7\<rparr>" "Num 42"]
  by simp




text \<open>
  C9. Subscribing is idempotent, for the store and for an action. The first
  subscription of a function that is not in the list appends it and returns it; the
  second returns \<open>undefined\<close> and changes nothing; the list holds the callback once,
  and one event (\<open>replaceState\<close>, a \<open>setState\<close> that returns, \<open>publish\<close>) calls it
  once. A callback that is already in the store's list is not added again.
\<close>

theorem subscription_is_idempotent:
  "(typeof cb = ''function'' \<and> cb \<notin> set (subscribers ds) \<longrightarrow>
      onStateChanged ds cb = (ds\<lparr>subscribers := subscribers ds @ [cb]\<rparr>, cb)
      \<and> onStateChanged (ds\<lparr>subscribers := subscribers ds @ [cb]\<rparr>) cb =
          (ds\<lparr>subscribers := subscribers ds @ [cb]\<rparr>, Undefined)
      \<and> count_list (subscribers ds @ [cb]) cb = 1
      \<and> calls_to cb (snd (replaceState (ds\<lparr>subscribers := subscribers ds @ [cb]\<rparr>) (Obj st))) = 1
      \<and> (DataStore_setState (ds\<lparr>subscribers := subscribers ds @ [cb]\<rparr>) p = (Returned, ds', evs) \<longrightarrow>
            calls_to cb evs = 1))
   \<and> (cb \<in> set (subscribers ds) \<longrightarrow> onStateChanged ds cb = (ds, Undefined))
   \<and> (typeof cb = ''function'' \<and> map_of acts k = Some a \<and> cb \<notin> set (action_subscribers a) \<longrightarrow>
      on acts (Str k) cb =
        Inr (AList.update k (a\<lparr>action_subscribers := action_subscribers a @ [cb]\<rparr>) acts, cb)
      \<and> on (AList.update k (a\<lparr>action_subscribers := action_subscribers a @ [cb]\<rparr>) acts) (Str k) cb =
        Inr (AList.update k (a\<lparr>action_subscribers := action_subscribers a @ [cb]\<rparr>) acts, Undefined)
      \<and> count_list (action_subscribers a @ [cb]) cb = 1
      \<and> publish (AList.update k (a\<lparr>action_subscribers := action_subscribers a @ [cb]\<rparr>) acts) k d =
          Inr (map (\<lambda>each. Call each [d]) (action_subscribers a @ [cb]))
      \<and> calls_to cb (map (\<lambda>each. Call each [d]) (action_subscribers a @ [cb])) = 1)"
proof (intro conjI impI)
  assume h: "typeof cb = ''function'' \<and> cb \<notin> set (subscribers ds)"
  show "onStateChanged ds cb = (ds\<lparr>subscribers := subscribers ds @ [cb]\<rparr>, cb)"
    using h by (simp add: onStateChanged_def)
  show "onStateChanged (ds\<lparr>subscribers := subscribers ds @ [cb]\<rparr>) cb =
          (ds\<lparr>subscribers := subscribers ds @ [cb]\<rparr>, Undefined)"
    by (simp add: onStateChanged_def)
  show c: "count_list (subscribers ds @ [cb]) cb = 1"
    using h by simp
  have "snd (replaceState (ds\<lparr>subscribers := subscribers ds @ [cb]\<rparr>) (Obj st)) =
      map (\<lambda>each. Call each [Obj st]) (subscribers ds @ [cb])"
    by (simp add: replaceState_def)
  then show "calls_to cb (snd (replaceState (ds\<lparr>subscribers := subscribers ds @ [cb]\<rparr>) (Obj st))) = 1"
    using c by (simp only: calls_to_count)
  show "calls_to cb evs = 1"
    if r: "DataStore_setState (ds\<lparr>subscribers := subscribers ds @ [cb]\<rparr>) p = (Returned, ds', evs)"
  proof -
    obtain out stem' evs' where
      s: "setState (subscribers ds @ [cb]) True p (state ds) = (out, stem', evs')"
      by (cases "setState (subscribers ds @ [cb]) True p (state ds)") auto
    from r s have "out = Returned" and "evs = evs'"
      by (auto simp: DataStore_setState_def)
    with setState_events [of "subscribers ds @ [cb]" True p "state ds" stem' evs'] s
    have "evs = map (\<lambda>each. Call each [stem']) (subscribers ds @ [cb])"
      by simp
    then show ?thesis
      using c by (simp only: calls_to_count)
  qed
next
  assume "cb \<in> set (subscribers ds)"
  then show "onStateChanged ds cb = (ds, Undefined)"
    by (simp add: onStateChanged_def)
next
  assume h: "typeof cb = ''function'' \<and> map_of acts k = Some a \<and> cb \<notin> set (action_subscribers a)"
  let ?acts' = "AList.update k (a\<lparr>action_subscribers := action_subscribers a @ [cb]\<rparr>) acts"
  show "on acts (Str k) cb = Inr (?acts', cb)"
    using h by (simp add: on_def actions_get_Own)
  show "on ?acts' (Str k) cb = Inr (?acts', Undefined)"
    using h by (simp add: on_def actions_get_def update_conv')
  show c: "count_list (action_subscribers a @ [cb]) cb = 1"
    using h by simp
  show "publish ?acts' k d = Inr (map (\<lambda>each. Call each [d]) (action_subscribers a @ [cb]))"
    by (simp add: publish_def actions_get_def update_conv')
  show "calls_to cb (map (\<lambda>each. Call each [d]) (action_subscribers a @ [cb])) = 1"
    using c by (simp only: calls_to_count)
qed

text \<open>
  \<open>new DataStore()\<close> and \<open>new Actions({myAction: null})\<close>, the same callback twice.
\<close>

theorem subscription_is_idempotent_witness:
  "onStateChanged (DataStore Undefined) (Function 3) =
     (\<lparr>state = Obj [], subscribers = [Function 3]\<rparr>, Function 3)
   \<and> onStateChanged \<lparr>state = Obj [], subscribers = [Function 3]\<rparr> (Function 3) =
     (\<lparr>state = Obj [], subscribers = [Function 3]\<rparr>, Undefined)
   \<and> calls_to (Function 3)
        (snd (replaceState \<lparr>state = Obj [], subscribers = [Function 3]\<rparr> (Obj [(''x'', Num 1)]))) = 1
   \<and> on (Actions [(''myAction'', Null)]) (Str ''myAction'') (Function 3) =
     Inr ([(''myAction'', \<lparr>action_subscribers = [Function 3], func = Null\<rparr>)], Function 3)
   \<and> on [(''myAction'', \<lparr>action_subscribers = [Function 3], func = Null\<rparr>)] (Str ''myAction'') (Function 3) =
     Inr ([(''myAction'', \<lparr>action_subscribers = [Function 3], func = Null\<rparr>)], Undefined)
   \<and> publish [(''myAction'', \<lparr>action_subscribers = [Function 3], func = Null\<rparr>)] ''myAction'' (Num 42) =
     Inr [Call (Function 3) [Num 42]]
   \<and> calls_to (Function 3) [Call (Function 3) [Num 42]] = 1"
proof -
  have D: "DataStore Undefined = \<lparr>state = Obj [], subscribers = []\<rparr>"
    by (simp add: DataStore_def)
  have A: "Actions [(''myAction'', Null)] = [(''myAction'', \<lparr>action_subscribers = [], func = Null\<rparr>)]"
    by (simp add: Actions_def)
  show ?thesis
    using subscription_is_idempotent
      [of "Function 3" "DataStore Undefined" "[(''x'', Num 1)]" Null _ _
          "Actions [(''myAction'', Null)]" "''myAction''"
          "\<lparr>action_subscribers = [], func = Null\<rparr>" "Num 42"]
    by (simp add: D A)
qed

text \<open>
  C10. \<open>typeof\<close> is \<open>object\<close> for \<open>null\<close> and for arrays. In a state that holds
  \<open>null\<close> at \<open>k\<close>, \<open>setState\<close> with a patch whose value at \<open>k\<close> is a non-empty
  plain object recurses into the \<open>null\<close> and ends with the engine's TypeError: \<open>k\<close>
  still holds \<open>null\<close> and no subscriber is called. With an earlier key in the patch,
  that key has already been written when the call throws (last conjunct: the state
  comes from the constructor, \<open>a\<close> is 2 afterwards).
\<close>

theorem setState_null_child_throws:
  "(map_of ss k = Some Null \<and> k \<noteq> ''constructor'' \<and> map_of ((j, v) # pk) ''constructor'' = None \<longrightarrow>
      DataStore_setState \<lparr>state = Obj ss, subscribers = subs\<rparr> (Obj [(k, Obj ((j, v) # pk))]) =
        (Threw EngineTypeError, \<lparr>state = Obj ss, subscribers = subs\<rparr>, []))
   \<and> typeof Null = ''object'' \<and> typeof (Arr xs) = ''object''
   \<and> DataStore_setState
        (fst (onStateChanged (DataStore (Obj [(''a'', Num 1), (''k'', Null)])) (Function 0)))
        (Obj [(''a'', Num 2), (''k'', Obj [(''x'', Num 1)])]) =
      (Threw EngineTypeError,
       \<lparr>state = Obj [(''a'', Num 2), (''k'', Null)], subscribers = [Function 0]\<rparr>, [])"
proof (intro conjI impI)
  assume a: "map_of ss k = Some Null \<and> k \<noteq> ''constructor'' \<and> map_of ((j, v) # pk) ''constructor'' = None"
  have inner: "for_in subs ((j, v) # pk) Null = (Threw EngineTypeError, Null, [])"
    by simp
  have "setState subs False (Obj ((j, v) # pk)) Null = (Threw EngineTypeError, Null, [])"
    using a inner by (simp add: setState.simps split: if_splits)
  moreover have "AList.update k Null ss = ss"
    using a by (simp add: update_triv)
  ultimately show "DataStore_setState \<lparr>state = Obj ss, subscribers = subs\<rparr> (Obj [(k, Obj ((j, v) # pk))]) =
        (Threw EngineTypeError, \<lparr>state = Obj ss, subscribers = subs\<rparr>, [])"
    using a by (auto simp: DataStore_setState_def setState.simps [of subs True])
qed (simp_all add: DataStore_setState_def DataStore_def onStateChanged_def setState.simps)

text \<open>The state \<open>{k: null}\<close> and the patch \<open>{k: {x: 1}}\<close>.\<close>

theorem setState_null_child_throws_witness:
  "DataStore_setState \<lparr>state = Obj [(''k'', Null)], subscribers = [Function 0]\<rparr>
       (Obj [(''k'', Obj [(''x'', Num 1)])]) =
     (Threw EngineTypeError, \<lparr>state = Obj [(''k'', Null)], subscribers = [Function 0]\<rparr>, [])"
  using setState_null_child_throws [of "[(''k'', Null)]" "''k''" "''x''" "Num 1" "[]" "[Function 0]"]
  by simp

end
